theory Spec2Isabelle
  imports Main
begin

section \<open>The NDJSON streaming endpoint of Practical-13.js\<close>

text \<open>
  The development embeds the streaming core of \<^verbatim>\<open>Practical-13.js\<close>: the abort-on-close
  middleware (lines 71-84), \<^verbatim>\<open>buildProblem\<close> (17-21), \<^verbatim>\<open>delay\<close> (160-168), the generator
  \<^verbatim>\<open>produceNdjsonItems\<close> (170-178) and the handler of \<^verbatim>\<open>GET /stream\<close> (180-232).

  JavaScript runs the handler as one task that is suspended at two places only: the timer of
  \<^verbatim>\<open>delay\<close> and the promise that waits for \<^verbatim>\<open>drain\<close> or \<^verbatim>\<open>close\<close> of the response.
  Everything the platform decides is an input of the model, one \<open>tick\<close> for each
  iteration of the generator's loop: the point at which the request's \<^verbatim>\<open>close\<close> event is
  delivered (if it is), the values of \<^verbatim>\<open>randomUUID()\<close> and of the clock, whether building or
  serialising the record raises, what \<^verbatim>\<open>res.write\<close> answers, and which event of the response
  ends a backpressure wait. The session is explicit state, returned updated.
\<close>

subsection \<open>Errors and problem documents\<close>

record js_error =
  err_name :: string
  err_message :: string

text \<open>Line 164: \<^verbatim>\<open>new Error('aborted')\<close> renamed \<^verbatim>\<open>AbortError\<close>, the rejection of \<^verbatim>\<open>onAbort\<close>.\<close>

definition abort_error :: js_error where
  "abort_error = \<lparr>err_name = ''AbortError'', err_message = ''aborted''\<rparr>"

text \<open>Line 161: \<^verbatim>\<open>throw new Error('aborted')\<close>, whose name stays \<^verbatim>\<open>Error\<close>.\<close>

definition aborted_error :: js_error where
  "aborted_error = \<lparr>err_name = ''Error'', err_message = ''aborted''\<rparr>"

record problem_args =
  arg_type :: "string option"
  arg_title :: "string option"
  arg_status :: "nat option"
  arg_detail :: "string option"
  arg_instance :: "string option"

record problem =
  p_type :: string
  p_title :: "string option"
  p_status :: nat
  p_detail :: "string option"
  p_instance :: "string option"

text \<open>
  The left operand of JavaScript's \<^verbatim>\<open>||\<close> is kept when it is truthy: a string that is
  neither \<^verbatim>\<open>undefined\<close> nor empty.
\<close>

definition truthy :: "string option \<Rightarrow> bool" where
  "truthy v = (case v of None \<Rightarrow> False | Some x \<Rightarrow> x \<noteq> [])"

text \<open>
  \<^verbatim>\<open>buildProblem\<close>, lines 17-21. A parameter left \<^verbatim>\<open>undefined\<close> is \<open>None\<close>; the defaults of
  \<^verbatim>\<open>type\<close> and \<^verbatim>\<open>status\<close> apply then. A key whose value is \<^verbatim>\<open>undefined\<close> is deleted, which
  is \<open>None\<close> in the result. The spread of \<^verbatim>\<open>extra\<close> is left out: the streaming handler
  passes none.
\<close>

definition buildProblem :: "problem_args \<Rightarrow> problem" where
  "buildProblem a =
     (let ty = (case arg_type a of None \<Rightarrow> ''about:blank'' | Some t \<Rightarrow> t);
          st = (case arg_status a of None \<Rightarrow> 500 | Some n \<Rightarrow> n)
      in \<lparr>p_type = ty,
          p_title = (if truthy (arg_title a) then arg_title a
                     else if st = 500 then Some ''Internal Server Error'' else None),
          p_status = st,
          p_detail = arg_detail a,
          p_instance = arg_instance a\<rparr>)"

subsection \<open>Records of the feed and what travels on the wire\<close>

record ndjson_item =
  item_seq :: nat
  item_id :: string
  item_ts :: string
  item_msg :: string

text \<open>Decimal digits of a number, for the template literal of line 175.\<close>

fun dec :: "nat \<Rightarrow> string" where
  "dec n = (if n < 10 then [''0123456789'' ! n]
            else dec (n div 10) @ [''0123456789'' ! (n mod 10)])"

declare dec.simps [simp del]

text \<open>
  A chunk of the response body: \<open>Line item\<close> is \<^verbatim>\<open>JSON.stringify(item) + '\n'\<close> (line 206),
  \<open>Doc p\<close> is \<^verbatim>\<open>JSON.stringify(p)\<close> of a problem document (line 228).
\<close>

datatype chunk = Line ndjson_item | Doc problem

subsection \<open>The environment of one iteration\<close>

text \<open>
  The places of one iteration at which the \<^verbatim>\<open>close\<close> event of the request can be delivered:
  before the check of line 172, while \<^verbatim>\<open>delay\<close> waits, after the timer has fired and before
  the check of line 174, between the \<^verbatim>\<open>yield\<close> and the check of line 202, and while the
  handler waits for capacity.
\<close>

datatype phase = BeforeCheck | DuringDelay | AfterTimer | AfterYield | DuringWait

text \<open>The answer of \<^verbatim>\<open>res.write(line)\<close>: \<^verbatim>\<open>true\<close>, \<^verbatim>\<open>false\<close>, or an exception.\<close>

datatype write_result = Accepted | Saturated | WriteRaised js_error

text \<open>The event of the response that ends the wait of lines 209-214.\<close>

datatype wait_event = Drain | ResClose

record tick =
  req_close :: "phase option"
  uuid :: string
  now_iso :: string
  construct_fault :: "js_error option"
  stringify_fault :: "js_error option"
  write_res :: write_result
  wait_ev :: wait_event

subsection \<open>The session\<close>

text \<open>Calls on the transport, in the order in which the handler makes them.\<close>

datatype call = CWrite nat write_result | CAwait wait_event | CEnd "chunk option"

text \<open>
  The messages of \<^verbatim>\<open>req.log\<close>: lines 78, 195, 203, 220 and 224.
\<close>

datatype log_entry =
    ClientDisconnected
  | ClientClosed
  | StreamAborted
  | StreamingStopped
  | StreamingError js_error

text \<open>
  The state of one request. \<open>aborted\<close> is \<^verbatim>\<open>signal.aborted\<close>; \<open>abort_listeners\<close> counts the
  \<^verbatim>\<open>abort\<close> listeners on the signal, \<open>timers\<close> the pending timeouts and \<open>wait_listeners\<close>
  the \<^verbatim>\<open>drain\<close>/\<^verbatim>\<open>close\<close> listeners on the response; \<open>ended\<close> is the variable of line 186.
  \<open>headers\<close>, \<open>statusCode\<close>, \<open>headersSent\<close> and \<open>writableEnded\<close> are the properties of
  \<^verbatim>\<open>res\<close>; \<open>wire_status\<close>, \<open>wire_headers\<close> and \<open>wire\<close> are what has left for the client.
  \<open>on_abort_fired\<close>, \<open>delay_calls\<close> (the value of \<^verbatim>\<open>signal.aborted\<close> at each call of
  \<^verbatim>\<open>delay\<close>), \<open>calls\<close> and \<open>logged\<close> only record what happened.
\<close>

record session =
  aborted :: bool
  abort_listeners :: nat
  on_abort_fired :: nat
  timers :: nat
  delay_calls :: "bool list"
  ended :: bool
  headers :: "string \<rightharpoonup> string"
  statusCode :: nat
  headersSent :: bool
  writableEnded :: bool
  wire_status :: "nat option"
  wire_headers :: "string \<rightharpoonup> string"
  wire :: "chunk list"
  wait_listeners :: nat
  calls :: "call list"
  logged :: "log_entry list"

definition new_session :: session where
  "new_session =
     \<lparr>aborted = False, abort_listeners = 0, on_abort_fired = 0, timers = 0, delay_calls = [],
      ended = False, headers = Map.empty, statusCode = 200, headersSent = False,
      writableEnded = False, wire_status = None, wire_headers = Map.empty, wire = [],
      wait_listeners = 0, calls = [], logged = []\<rparr>"

definition req_log :: "log_entry \<Rightarrow> session \<Rightarrow> session" where
  "req_log m s = s\<lparr>logged := logged s @ [m]\<rparr>"

subsection \<open>The cancellation signal\<close>

text \<open>
  \<^verbatim>\<open>cleanup\<close> of line 165: \<^verbatim>\<open>clearTimeout(t)\<close> and \<^verbatim>\<open>removeEventListener\<close>.
\<close>

definition cleanup :: "session \<Rightarrow> session" where
  "cleanup s = s\<lparr>timers := timers s - 1, abort_listeners := abort_listeners s - 1\<rparr>"

text \<open>
  \<^verbatim>\<open>onAbort\<close> of line 164; the rejection of the promise is the result of \<open>delay\<close> below.
\<close>

definition onAbort :: "session \<Rightarrow> session" where
  "onAbort s = (cleanup s)\<lparr>on_abort_fired := on_abort_fired s + 1\<rparr>"

text \<open>
  \<^verbatim>\<open>ac.abort()\<close> of the platform's \<^verbatim>\<open>AbortController\<close>: on a signal that is not aborted
  it sets the flag and dispatches the \<^verbatim>\<open>abort\<close> event to the listener that is registered (a
  session has at most the one of its pending \<^verbatim>\<open>delay\<close>); on an aborted signal it does
  nothing. A listener added later is not called: the event is dispatched once.
\<close>

definition abort :: "session \<Rightarrow> session" where
  "abort s =
     (if aborted s then s
      else (let s1 = s\<lparr>aborted := True\<rparr>
            in if 0 < abort_listeners s1 then onAbort s1 else s1))"

text \<open>
  \<^verbatim>\<open>signal.addEventListener('abort', onAbort)\<close> of line 166: the platform adds the listener
  and calls nothing, whatever the state of the signal.
\<close>

definition addEventListener :: "session \<Rightarrow> session" where
  "addEventListener s = s\<lparr>abort_listeners := abort_listeners s + 1\<rparr>"

text \<open>
  \<^verbatim>\<open>onClose\<close> of the middleware, lines 75-80. The middleware removes it from the request
  when the response emits \<^verbatim>\<open>finish\<close> (line 82), which is after the session has ended the
  response: while the loop runs, it is registered.
\<close>

definition onClose :: "session \<Rightarrow> session" where
  "onClose s = (if \<not> aborted s then req_log ClientDisconnected (abort s) else s)"

text \<open>The listener of lines 193-197, registered after \<open>onClose\<close> and so run after it.\<close>

definition stream_close_listener :: "session \<Rightarrow> session" where
  "stream_close_listener s = (if \<not> aborted s then req_log ClientClosed s else s)"

definition req_close_event :: "session \<Rightarrow> session" where
  "req_close_event s = stream_close_listener (onClose s)"

text \<open>The \<^verbatim>\<open>close\<close> event of the request is delivered at phase \<open>ph\<close> when the tick says so.\<close>

definition deliver :: "phase \<Rightarrow> tick \<Rightarrow> session \<Rightarrow> session" where
  "deliver ph t s = (if req_close t = Some ph then req_close_event s else s)"

subsection \<open>delay and the generator\<close>

text \<open>
  \<^verbatim>\<open>delay(ms, signal)\<close>, lines 160-168. \<open>Inl e\<close> is the rejection of the promise that the
  \<^verbatim>\<open>await\<close> of line 173 raises, \<open>Inr ()\<close> its resolution by the timer. The signal of
  \<^verbatim>\<open>/stream\<close> is never \<^verbatim>\<open>undefined\<close>: the middleware sets \<^verbatim>\<open>req.signal\<close> on every request.
  How long the timer takes is the platform's business; \<open>ms\<close> does not enter the result.
\<close>

definition delay :: "nat \<Rightarrow> tick \<Rightarrow> session \<Rightarrow> (js_error + unit) \<times> session" where
  "delay ms t s =
     (let s0 = s\<lparr>delay_calls := delay_calls s @ [aborted s]\<rparr>
      in if aborted s0 then (Inl aborted_error, s0)
         else (let s1 = s0\<lparr>timers := timers s0 + 1\<rparr>;
                   s2 = addEventListener s1
               in if req_close t = Some DuringDelay
                  then (Inl abort_error, req_close_event s2)
                  else (Inr (), cleanup s2)))"

datatype gen_step = Yield ndjson_item | Done | Throw js_error

text \<open>The record of line 175 for index \<open>i\<close>.\<close>

definition make_item :: "nat \<Rightarrow> tick \<Rightarrow> ndjson_item" where
  "make_item i t =
     \<lparr>item_seq = i + 1, item_id = uuid t, item_ts = now_iso t,
      item_msg = ''item '' @ dec (i + 1)\<rparr>"

text \<open>
  The body of the loop of \<^verbatim>\<open>produceNdjsonItems\<close> for index \<open>i\<close>, lines 172-176: what the
  generator does between two requests for an item. \<open>Done\<close> is a \<^verbatim>\<open>break\<close>.
\<close>

definition produce_body :: "nat \<Rightarrow> nat \<Rightarrow> tick \<Rightarrow> session \<Rightarrow> gen_step \<times> session" where
  "produce_body i intervalMs t s =
     (let s1 = deliver BeforeCheck t s
      in if aborted s1 then (Done, s1)
         else (case delay intervalMs t s1 of
                 (Inl e, s2) \<Rightarrow> (Throw e, s2)
               | (Inr u, s2) \<Rightarrow>
                   (let s3 = deliver AfterTimer t s2
                    in if aborted s3 then (Done, s3)
                       else (case construct_fault t of
                               Some e \<Rightarrow> (Throw e, s3)
                             | None \<Rightarrow> (Yield (make_item i t), s3)))))"

subsection \<open>The transport\<close>

text \<open>
  The first bytes of a response carry its status line and headers: \<^verbatim>\<open>res.write\<close> and
  \<^verbatim>\<open>res.end\<close> send them when they are not sent yet, as they stand at that moment.
\<close>

definition flush_headers :: "session \<Rightarrow> session" where
  "flush_headers s =
     (if headersSent s then s
      else s\<lparr>headersSent := True, wire_status := Some (statusCode s),
             wire_headers := headers s\<rparr>)"

text \<open>\<^verbatim>\<open>res.setHeader\<close>; the handler calls it only while \<^verbatim>\<open>res.headersSent\<close> is false.\<close>

definition setHeader :: "string \<Rightarrow> string \<Rightarrow> session \<Rightarrow> session" where
  "setHeader k v s = s\<lparr>headers := (headers s)(k \<mapsto> v)\<rparr>"

text \<open>
  \<^verbatim>\<open>res.write(line)\<close> that returns \<open>r\<close> (\<open>Accepted\<close> or \<open>Saturated\<close>; the chunk is taken in
  both cases). Nothing is sent on a response whose write side is closed.
\<close>

definition res_write :: "ndjson_item \<Rightarrow> write_result \<Rightarrow> session \<Rightarrow> session" where
  "res_write item r s =
     (let s1 = s\<lparr>calls := calls s @ [CWrite (item_seq item) r]\<rparr>
      in if writableEnded s1 then s1
         else (flush_headers s1)\<lparr>wire := wire s1 @ [Line item]\<rparr>)"

text \<open>
  \<^verbatim>\<open>res.end(chunk)\<close>: sends the last chunk, if one is given, and closes the write side; on a
  response that is ended already it sends nothing. The handler guards each of its calls of
  \<^verbatim>\<open>res.end\<close> with \<^verbatim>\<open>try\<close>/\<^verbatim>\<open>catch\<close>; \<^verbatim>\<open>res.end\<close> is taken as a call that does not raise,
  so these \<^verbatim>\<open>catch\<close> blocks are no branches here. The wrapper that the timing middleware
  puts around \<^verbatim>\<open>res.end\<close> (lines 32-53) sets its two headers and calls the original; headers
  other than those of the handler are not followed.
\<close>

definition res_end :: "chunk option \<Rightarrow> session \<Rightarrow> session" where
  "res_end c s =
     (let s1 = s\<lparr>calls := calls s @ [CEnd c]\<rparr>
      in if writableEnded s1 then s1
         else (flush_headers s1)
                \<lparr>wire := wire s1 @ (case c of None \<Rightarrow> [] | Some x \<Rightarrow> [x]),
                 writableEnded := True\<rparr>)"

text \<open>\<^verbatim>\<open>endStream\<close>, lines 187-191; its parameter \<^verbatim>\<open>code\<close> is not used by the source.\<close>

definition endStream :: "session \<Rightarrow> session" where
  "endStream s = (if ended s then s else res_end None (s\<lparr>ended := True\<rparr>))"

text \<open>
  The promise of lines 209-214: two \<^verbatim>\<open>once\<close> listeners; the one that fires removes the
  other and resolves. The promise resolves in the same way for \<^verbatim>\<open>drain\<close> and for
  \<^verbatim>\<open>close\<close>, and it does not listen to the signal. The tick names the event that ends the
  wait; the request's \<^verbatim>\<open>close\<close>, when it arrives during the wait, has been handled by then.
\<close>

definition await_capacity :: "tick \<Rightarrow> session \<Rightarrow> session" where
  "await_capacity t s =
     (let s1 = s\<lparr>wait_listeners := wait_listeners s + 2\<rparr>;
          s2 = deliver DuringWait t s1
      in s2\<lparr>wait_listeners := wait_listeners s2 - 2, calls := calls s2 @ [CAwait (wait_ev t)]\<rparr>)"

subsection \<open>The handler of GET /stream\<close>

datatype consumed = Next | Break | Raise js_error

text \<open>The body of the \<^verbatim>\<open>for await\<close> loop, lines 202-215, for one item.\<close>

definition consume :: "ndjson_item \<Rightarrow> tick \<Rightarrow> session \<Rightarrow> consumed \<times> session" where
  "consume item t s =
     (let s1 = deliver AfterYield t s
      in if aborted s1 then (Break, req_log StreamAborted s1)
         else (case stringify_fault t of
                 Some e \<Rightarrow> (Raise e, s1)
               | None \<Rightarrow>
                   (case write_res t of
                      WriteRaised e \<Rightarrow>
                        (Raise e, s1\<lparr>calls := calls s1 @ [CWrite (item_seq item) (WriteRaised e)]\<rparr>)
                    | Accepted \<Rightarrow> (Next, res_write item Accepted s1)
                    | Saturated \<Rightarrow> (Next, await_capacity t (res_write item Saturated s1)))))"

text \<open>
  How the loop is left: the generator ran to the end of its \<^verbatim>\<open>for\<close>, the generator broke out
  on an aborted signal (lines 172, 174), the handler broke out (line 204), or an exception
  reached the \<^verbatim>\<open>catch\<close> of line 218.
\<close>

datatype loop_exit = Exhausted | SourceBreak | HandlerBreak | Caught js_error

datatype iter_result = Continue | Exit loop_exit

definition iteration :: "nat \<Rightarrow> nat \<Rightarrow> tick \<Rightarrow> session \<Rightarrow> iter_result \<times> session" where
  "iteration i intervalMs t s =
     (case produce_body i intervalMs t s of
        (Done, s1) \<Rightarrow> (Exit SourceBreak, s1)
      | (Throw e, s1) \<Rightarrow> (Exit (Caught e), s1)
      | (Yield item, s1) \<Rightarrow>
          (case consume item t s1 of
             (Break, s2) \<Rightarrow> (Exit HandlerBreak, s2)
           | (Raise e, s2) \<Rightarrow> (Exit (Caught e), s2)
           | (Next, s2) \<Rightarrow> (Continue, s2)))"

text \<open>
  \<^verbatim>\<open>for (let i = 0; i < count; i++)\<close> of the generator, driven by the \<^verbatim>\<open>for await\<close> of the
  handler.
\<close>

function stream_loop ::
  "nat \<Rightarrow> nat \<Rightarrow> nat \<Rightarrow> (nat \<Rightarrow> tick) \<Rightarrow> session \<Rightarrow> loop_exit \<times> session" where
  "stream_loop i count intervalMs env s =
     (if i < count
      then (case iteration i intervalMs (env i) s of
              (Exit x, s1) \<Rightarrow> (x, s1)
            | (Continue, s1) \<Rightarrow> stream_loop (i + 1) count intervalMs env s1)
      else (Exhausted, s))"
  by pat_completeness auto
termination
  by (relation "measure (\<lambda>(i, count, intervalMs, env, s). count - i)") auto

declare stream_loop.simps [simp del]

text \<open>Lines 181-183.\<close>

definition open_stream :: "session \<Rightarrow> session" where
  "open_stream s =
     setHeader ''Transfer-Encoding'' ''chunked''
       (setHeader ''Cache-Control'' ''no-store''
          (setHeader ''Content-Type'' ''application/x-ndjson; charset=utf-8'' s))"

text \<open>The problem document of line 227.\<close>

definition streaming_problem :: "js_error \<Rightarrow> problem" where
  "streaming_problem e =
     buildProblem
       \<lparr>arg_type = None, arg_title = Some ''Streaming error'', arg_status = Some 500,
        arg_detail = Some (if err_message e \<noteq> [] then err_message e else ''stream error''),
        arg_instance = None\<rparr>"

text \<open>The \<^verbatim>\<open>catch\<close> block, lines 218-230.\<close>

definition on_catch :: "js_error \<Rightarrow> session \<Rightarrow> session" where
  "on_catch e s =
     (if err_name e = ''AbortError'' then endStream (req_log StreamingStopped s)
      else (let s1 = req_log (StreamingError e) s;
                s2 = (if \<not> headersSent s1
                      then setHeader ''Content-Type'' ''application/problem+json'' s1 else s1)
            in if \<not> writableEnded s2
               then res_end (Some (Doc (streaming_problem e))) (s2\<lparr>statusCode := 500\<rparr>)
               else s2))"

text \<open>After the loop: line 217, or the \<^verbatim>\<open>catch\<close> block.\<close>

definition finish :: "loop_exit \<times> session \<Rightarrow> session" where
  "finish r = (case r of (Caught e, s) \<Rightarrow> on_catch e s | (x, s) \<Rightarrow> endStream s)"

definition stream_run :: "nat \<Rightarrow> nat \<Rightarrow> (nat \<Rightarrow> tick) \<Rightarrow> loop_exit \<times> session" where
  "stream_run count intervalMs env = stream_loop 0 count intervalMs env (open_stream new_session)"

definition stream_session :: "nat \<Rightarrow> nat \<Rightarrow> (nat \<Rightarrow> tick) \<Rightarrow> session" where
  "stream_session count intervalMs env = finish (stream_run count intervalMs env)"

text \<open>Line 201: the endpoint asks for 1000 items, 100 ms apart.\<close>

definition stream_endpoint :: "(nat \<Rightarrow> tick) \<Rightarrow> session" where
  "stream_endpoint env = stream_session 1000 100 env"

text \<open>
  The terminal states that the specification names, read off the way the loop was left.
\<close>

datatype outcome = COMPLETED | CANCELLED | FAILED

definition outcome_of :: "loop_exit \<Rightarrow> outcome" where
  "outcome_of x =
     (case x of
        Exhausted \<Rightarrow> COMPLETED
      | SourceBreak \<Rightarrow> CANCELLED
      | HandlerBreak \<Rightarrow> CANCELLED
      | Caught e \<Rightarrow> (if err_name e = ''AbortError'' then CANCELLED else FAILED))"

text \<open>The state in which iteration \<open>i\<close> starts, when the loop gets that far.\<close>

fun state_at :: "nat \<Rightarrow> (nat \<Rightarrow> tick) \<Rightarrow> session \<Rightarrow> nat \<Rightarrow> session option" where
  "state_at intervalMs env s0 0 = Some s0"
| "state_at intervalMs env s0 (Suc i) =
     (case state_at intervalMs env s0 i of
        None \<Rightarrow> None
      | Some s \<Rightarrow>
          (case iteration i intervalMs (env i) s of
             (Continue, s1) \<Rightarrow> Some s1
           | (Exit x, s1) \<Rightarrow> None))"

text \<open>The sequence numbers of the records on the wire, and of the write calls made.\<close>

fun line_seqs :: "chunk list \<Rightarrow> nat list" where
  "line_seqs [] = []"
| "line_seqs (Line item # cs) = item_seq item # line_seqs cs"
| "line_seqs (Doc p # cs) = line_seqs cs"

fun is_write :: "call \<Rightarrow> bool" where
  "is_write (CWrite n r) = True"
| "is_write c = False"

fun is_end :: "call \<Rightarrow> bool" where
  "is_end (CEnd c) = True"
| "is_end c = False"

text \<open>
  What holds of the session whenever the loop is about to start an iteration: the response is
  open, its status and headers are those of lines 181-183, the headers have left exactly when
  a chunk has, no listener or timer is pending, and \<^verbatim>\<open>res.end\<close> has not been called.
\<close>

definition running :: "session \<Rightarrow> bool" where
  "running s =
     (\<not> ended s \<and> \<not> writableEnded s \<and> statusCode s = 200 \<and>
      headers s = headers (open_stream new_session) \<and>
      headersSent s = (wire s \<noteq> []) \<and>
      wire_status s = (if headersSent s then Some 200 else None) \<and>
      (headersSent s \<longrightarrow> wire_headers s = headers (open_stream new_session)) \<and>
      abort_listeners s = 0 \<and> timers s = 0 \<and> wait_listeners s = 0 \<and>
      True \<notin> set (delay_calls s) \<and> filter is_end (calls s) = [])"

text \<open>A tick on which nothing goes wrong: no close, no fault, the write is accepted.\<close>

definition calm_tick :: tick where
  "calm_tick =
     \<lparr>req_close = None, uuid = ''00000000-0000-4000-8000-000000000000'',
      now_iso = ''2025-01-01T00:00:00.000Z'', construct_fault = None, stringify_fault = None,
      write_res = Accepted, wait_ev = Drain\<rparr>"

text \<open>The request's \<^verbatim>\<open>close\<close> arrives while \<^verbatim>\<open>delay\<close> waits in iteration \<open>n\<close>.\<close>

definition close_in_delay_at :: "nat \<Rightarrow> nat \<Rightarrow> tick" where
  "close_in_delay_at n i = (if i = n then calm_tick\<lparr>req_close := Some DuringDelay\<rparr> else calm_tick)"

text \<open>
  The connection closes while the handler waits for capacity in iteration \<open>n\<close>: the
  response's \<^verbatim>\<open>close\<close> ends the wait, the request's \<^verbatim>\<open>close\<close> arrives during it.
\<close>

definition abandoned_at :: "nat \<Rightarrow> nat \<Rightarrow> tick" where
  "abandoned_at n i =
     (if i = n
      then calm_tick\<lparr>req_close := Some DuringWait, write_res := Saturated, wait_ev := ResClose\<rparr>
      else calm_tick)"

text \<open>\<^verbatim>\<open>JSON.stringify\<close> raises a \<^verbatim>\<open>TypeError\<close> on the record of iteration \<open>n\<close>.\<close>

definition boom :: js_error where
  "boom = \<lparr>err_name = ''TypeError'', err_message = ''boom''\<rparr>"

definition fault_at :: "nat \<Rightarrow> nat \<Rightarrow> tick" where
  "fault_at n i = (if i = n then calm_tick\<lparr>stringify_fault := Some boom\<rparr> else calm_tick)"







section \<open>Properties\<close>

subsection \<open>One iteration and the loop\<close>

lemmas stream_defs =
  deliver_def req_close_event_def stream_close_listener_def onClose_def abort_def onAbort_def
  cleanup_def req_log_def delay_def addEventListener_def produce_body_def consume_def await_capacity_def
  res_write_def flush_headers_def iteration_def

lemma running_open: "running (open_stream new_session)"
  by (simp add: running_def open_stream_def new_session_def setHeader_def)

lemma deliver_aborted: "aborted s \<Longrightarrow> deliver ph t s = s"
  by (simp add: deliver_def req_close_event_def onClose_def stream_close_listener_def)

lemma deliver_other: "req_close t \<noteq> Some ph \<Longrightarrow> deliver ph t s = s"
  by (simp add: deliver_def)

lemma deliver_this: "req_close t = Some ph \<Longrightarrow> deliver ph t s = req_close_event s"
  by (simp add: deliver_def)

lemma req_close_event_idle:
  "\<not> aborted s \<Longrightarrow> abort_listeners s = 0 \<Longrightarrow>
   req_close_event s = s\<lparr>aborted := True, logged := logged s @ [ClientDisconnected]\<rparr>"
  by (simp add: req_close_event_def onClose_def stream_close_listener_def abort_def req_log_def)

lemma delay_timer:
  "\<not> aborted s \<Longrightarrow> req_close t \<noteq> Some DuringDelay \<Longrightarrow>
   delay ms t s = (Inr (), s\<lparr>delay_calls := delay_calls s @ [False]\<rparr>)"
  by (simp add: delay_def addEventListener_def cleanup_def Let_def)

lemma delay_abort:
  "\<not> aborted s \<Longrightarrow> req_close t = Some DuringDelay \<Longrightarrow>
   delay ms t s =
     (Inl abort_error,
      s\<lparr>delay_calls := delay_calls s @ [False], aborted := True,
        on_abort_fired := on_abort_fired s + 1,
        logged := logged s @ [ClientDisconnected]\<rparr>)"
  by (simp add: delay_def addEventListener_def cleanup_def Let_def req_close_event_def onClose_def
      stream_close_listener_def abort_def onAbort_def req_log_def)

text \<open>
  One iteration, case by case: which way it goes and the session it leaves, as decided by the
  signal and the tick.
\<close>

lemma iteration_aborted: "aborted s \<Longrightarrow> iteration i ms t s = (Exit SourceBreak, s)"
  by (simp add: iteration_def produce_body_def deliver_aborted)

lemma iteration_close_before:
  "\<not> aborted s \<Longrightarrow> abort_listeners s = 0 \<Longrightarrow> req_close t = Some BeforeCheck \<Longrightarrow>
   iteration i ms t s =
     (Exit SourceBreak, s\<lparr>aborted := True, logged := logged s @ [ClientDisconnected]\<rparr>)"
  by (simp add: iteration_def produce_body_def deliver_this req_close_event_idle)

lemma iteration_close_delay:
  "\<not> aborted s \<Longrightarrow> req_close t = Some DuringDelay \<Longrightarrow>
   iteration i ms t s = (Exit (Caught abort_error), snd (delay ms t s))"
  by (simp add: iteration_def produce_body_def deliver_other delay_abort)

lemma iteration_close_timer:
  "\<not> aborted s \<Longrightarrow> abort_listeners s = 0 \<Longrightarrow> req_close t = Some AfterTimer \<Longrightarrow>
   iteration i ms t s =
     (Exit SourceBreak,
      s\<lparr>delay_calls := delay_calls s @ [False], aborted := True,
        logged := logged s @ [ClientDisconnected]\<rparr>)"
  by (simp add: iteration_def produce_body_def deliver_other deliver_this delay_timer
      req_close_event_idle)

lemma iteration_construct:
  "\<not> aborted s \<Longrightarrow> req_close t \<noteq> Some BeforeCheck \<Longrightarrow> req_close t \<noteq> Some DuringDelay \<Longrightarrow>
   req_close t \<noteq> Some AfterTimer \<Longrightarrow> construct_fault t = Some e \<Longrightarrow>
   iteration i ms t s = (Exit (Caught e), s\<lparr>delay_calls := delay_calls s @ [False]\<rparr>)"
  by (simp add: iteration_def produce_body_def deliver_other delay_timer)

lemma iteration_close_yield:
  "\<not> aborted s \<Longrightarrow> abort_listeners s = 0 \<Longrightarrow> req_close t = Some AfterYield \<Longrightarrow>
   construct_fault t = None \<Longrightarrow>
   iteration i ms t s =
     (Exit HandlerBreak,
      s\<lparr>delay_calls := delay_calls s @ [False], aborted := True,
        logged := logged s @ [ClientDisconnected, StreamAborted]\<rparr>)"
  by (simp add: iteration_def produce_body_def consume_def deliver_other deliver_this
      delay_timer req_close_event_idle req_log_def)

lemma iteration_stringify:
  "\<not> aborted s \<Longrightarrow> req_close t = None \<or> req_close t = Some DuringWait \<Longrightarrow>
   construct_fault t = None \<Longrightarrow> stringify_fault t = Some e \<Longrightarrow>
   iteration i ms t s = (Exit (Caught e), s\<lparr>delay_calls := delay_calls s @ [False]\<rparr>)"
  by (auto simp: iteration_def produce_body_def consume_def deliver_other delay_timer)

lemma iteration_raised:
  "\<not> aborted s \<Longrightarrow> req_close t = None \<or> req_close t = Some DuringWait \<Longrightarrow>
   construct_fault t = None \<Longrightarrow> stringify_fault t = None \<Longrightarrow>
   write_res t = WriteRaised e \<Longrightarrow>
   iteration i ms t s =
     (Exit (Caught e),
      s\<lparr>delay_calls := delay_calls s @ [False],
        calls := calls s @ [CWrite (Suc i) (WriteRaised e)]\<rparr>)"
  by (auto simp: iteration_def produce_body_def consume_def deliver_other delay_timer
      make_item_def)

lemma iteration_accepted:
  "\<not> aborted s \<Longrightarrow> req_close t = None \<or> req_close t = Some DuringWait \<Longrightarrow>
   construct_fault t = None \<Longrightarrow> stringify_fault t = None \<Longrightarrow> write_res t = Accepted \<Longrightarrow>
   iteration i ms t s =
     (Continue,
      res_write (make_item i t) Accepted (s\<lparr>delay_calls := delay_calls s @ [False]\<rparr>))"
  by (auto simp: iteration_def produce_body_def consume_def deliver_other delay_timer)

lemma iteration_saturated:
  "\<not> aborted s \<Longrightarrow> req_close t = None \<or> req_close t = Some DuringWait \<Longrightarrow>
   construct_fault t = None \<Longrightarrow> stringify_fault t = None \<Longrightarrow> write_res t = Saturated \<Longrightarrow>
   iteration i ms t s =
     (Continue,
      await_capacity t
        (res_write (make_item i t) Saturated (s\<lparr>delay_calls := delay_calls s @ [False]\<rparr>)))"
  by (auto simp: iteration_def produce_body_def consume_def deliver_other delay_timer)


lemma tick_cases [case_names aborted close_before close_delay close_timer construct
    close_yield stringify raised accepted saturated]:
  obtains "aborted s"
  | "\<not> aborted s" and "req_close t = Some BeforeCheck"
  | "\<not> aborted s" and "req_close t = Some DuringDelay"
  | "\<not> aborted s" and "req_close t = Some AfterTimer"
  | e where "\<not> aborted s" and "req_close t \<noteq> Some BeforeCheck"
      and "req_close t \<noteq> Some DuringDelay" and "req_close t \<noteq> Some AfterTimer"
      and "construct_fault t = Some e"
  | "\<not> aborted s" and "req_close t = Some AfterYield" and "construct_fault t = None"
  | e where "\<not> aborted s" and "req_close t = None \<or> req_close t = Some DuringWait"
      and "construct_fault t = None" and "stringify_fault t = Some e"
  | e where "\<not> aborted s" and "req_close t = None \<or> req_close t = Some DuringWait"
      and "construct_fault t = None" and "stringify_fault t = None"
      and "write_res t = WriteRaised e"
  | "\<not> aborted s" and "req_close t = None \<or> req_close t = Some DuringWait"
      and "construct_fault t = None" and "stringify_fault t = None"
      and "write_res t = Accepted"
  | "\<not> aborted s" and "req_close t = None \<or> req_close t = Some DuringWait"
      and "construct_fault t = None" and "stringify_fault t = None"
      and "write_res t = Saturated"
proof (cases "aborted s")
  case True
  then show ?thesis using that(1) by simp
next
  case na: False
  have ph: "req_close t = Some BeforeCheck \<or> req_close t = Some DuringDelay \<or>
      req_close t = Some AfterTimer \<or> req_close t = Some AfterYield \<or>
      req_close t = None \<or> req_close t = Some DuringWait"
  proof (cases "req_close t")
    case None
    then show ?thesis by simp
  next
    case (Some p)
    then show ?thesis by (cases p) simp_all
  qed
  show ?thesis
  proof (cases "construct_fault t")
    case (Some e)
    then show ?thesis using na ph that(2,3,4,5) by fastforce
  next
    case nc: None
    show ?thesis
    proof (cases "stringify_fault t")
      case (Some e)
      then show ?thesis using na nc ph that(2,3,4,6,7) by fastforce
    next
      case ns: None
      show ?thesis
        using na nc ns ph that(2,3,4,6,8,9,10) by (cases "write_res t") fastforce+
    qed
  qed
qed

lemma iteration_running: "running s \<Longrightarrow> running (snd (iteration i ms t s))"
  by (cases rule: tick_cases [where s = s and t = t])
    (simp_all add: iteration_aborted iteration_close_before iteration_close_delay
      iteration_close_timer iteration_construct iteration_close_yield iteration_stringify
      iteration_raised iteration_accepted iteration_saturated delay_abort running_def
      res_write_def await_capacity_def flush_headers_def deliver_def req_close_event_idle
      Let_def)

lemma iteration_wire:
  "running s \<Longrightarrow>
   wire (snd (iteration i ms t s)) =
     wire s @ (if fst (iteration i ms t s) = Continue then [Line (make_item i t)] else [])"
  by (cases rule: tick_cases [where s = s and t = t])
    (simp_all add: iteration_aborted iteration_close_before iteration_close_delay
      iteration_close_timer iteration_construct iteration_close_yield iteration_stringify
      iteration_raised iteration_accepted iteration_saturated delay_abort running_def
      res_write_def await_capacity_def flush_headers_def deliver_def req_close_event_idle
      Let_def)

lemma iteration_ContinueD:
  assumes "iteration i ms t s = (Continue, s1)" and "running s"
  shows "\<not> aborted s" and "req_close t = None \<or> req_close t = Some DuringWait"
    and "construct_fault t = None" and "stringify_fault t = None"
    and "write_res t = Accepted \<or> write_res t = Saturated"
  using assms
  by (cases rule: tick_cases [where s = s and t = t];
      simp add: iteration_aborted iteration_close_before iteration_close_delay
      iteration_close_timer iteration_construct iteration_close_yield iteration_stringify
      iteration_raised iteration_accepted iteration_saturated running_def)+


lemma stream_loop_Continue:
  "i < count \<Longrightarrow> iteration i ms (env i) s = (Continue, s1) \<Longrightarrow>
   stream_loop i count ms env s = stream_loop (Suc i) count ms env s1"
  by (subst stream_loop.simps) simp

lemma stream_loop_Exit:
  "i < count \<Longrightarrow> iteration i ms (env i) s = (Exit x, s1) \<Longrightarrow>
   stream_loop i count ms env s = (x, s1)"
  by (subst stream_loop.simps) simp

lemma stream_loop_Exhausted:
  "\<not> i < count \<Longrightarrow> stream_loop i count ms env s = (Exhausted, s)"
  by (subst stream_loop.simps) simp

lemma stream_loop_rule:
  assumes init: "P i s"
    and step: "\<And>j s s1. j < count \<Longrightarrow> P j s \<Longrightarrow> iteration j ms (env j) s = (Continue, s1) \<Longrightarrow> P (Suc j) s1"
    and exit: "\<And>j s x s1. j < count \<Longrightarrow> P j s \<Longrightarrow> iteration j ms (env j) s = (Exit x, s1) \<Longrightarrow> Q x s1"
    and exh: "\<And>j s. \<not> j < count \<Longrightarrow> P j s \<Longrightarrow> Q Exhausted s"
  shows "Q (fst (stream_loop i count ms env s)) (snd (stream_loop i count ms env s))"
  using init
proof (induction "count - i" arbitrary: i s)
  case 0
  then have "\<not> i < count" by simp
  then show ?case
    using exh [of i s] "0.prems" by (simp add: stream_loop_Exhausted)
next
  case (Suc n)
  then have lt: "i < count" by simp
  obtain r s1 where it: "iteration i ms (env i) s = (r, s1)"
    by (cases "iteration i ms (env i) s")
  show ?case
  proof (cases r)
    case Continue
    have "P (Suc i) s1"
      using step [OF lt Suc.prems] it Continue by simp
    moreover have "n = count - Suc i"
      using Suc.hyps(2) by simp
    ultimately have
      "Q (fst (stream_loop (Suc i) count ms env s1)) (snd (stream_loop (Suc i) count ms env s1))"
      using Suc.hyps(1) by blast
    then show ?thesis
      using stream_loop_Continue [OF lt, of ms env s s1] it Continue by simp
  next
    case (Exit x)
    then show ?thesis
      using exit [OF lt Suc.prems, of x s1] it stream_loop_Exit [OF lt, of ms env s x s1]
      by simp
  qed
qed

lemma state_at_loop:
  "state_at ms env s0 i = Some s \<Longrightarrow> i \<le> count \<Longrightarrow>
   stream_loop 0 count ms env s0 = stream_loop i count ms env s"
proof (induction i arbitrary: s)
  case 0
  then show ?case by simp
next
  case (Suc i)
  from Suc.prems(1) obtain s' where
    a: "state_at ms env s0 i = Some s'" and b: "iteration i ms (env i) s' = (Continue, s)"
    by (auto split: option.splits prod.splits iter_result.splits)
  have "stream_loop 0 count ms env s0 = stream_loop i count ms env s'"
    using Suc.IH [OF a] Suc.prems(2) by simp
  also have "\<dots> = stream_loop (Suc i) count ms env s"
    using stream_loop_Continue [of i count ms env s' s] b Suc.prems(2) by simp
  finally show ?case .
qed


lemma line_seqs_append: "line_seqs (xs @ ys) = line_seqs xs @ line_seqs ys"
  by (induction xs rule: line_seqs.induct) simp_all

lemma finish_line_seqs: "line_seqs (wire (finish (x, s))) = line_seqs (wire s)"
  by (cases x)
    (simp_all add: finish_def endStream_def res_end_def flush_headers_def on_catch_def
      req_log_def setHeader_def Let_def line_seqs_append)

lemma loop_line_seqs:
  assumes "running s" and "line_seqs (wire s) = [1..<Suc i]" and "i \<le> count"
  shows "running (snd (stream_loop i count ms env s)) \<and>
         (\<exists>k. k \<le> count \<and> line_seqs (wire (snd (stream_loop i count ms env s))) = [1..<Suc k])"
proof (rule stream_loop_rule [where
      P = "\<lambda>j s. running s \<and> line_seqs (wire s) = [1..<Suc j] \<and> j \<le> count" and
      Q = "\<lambda>x s. running s \<and> (\<exists>k. k \<le> count \<and> line_seqs (wire s) = [1..<Suc k])"])
  show "running s \<and> line_seqs (wire s) = [1..<Suc i] \<and> i \<le> count"
    using assms by simp
next
  fix j s s1
  assume lt: "j < count" and p: "running s \<and> line_seqs (wire s) = [1..<Suc j] \<and> j \<le> count"
    and it: "iteration j ms (env j) s = (Continue, s1)"
  have "running s1"
    using iteration_running [of s j ms "env j"] p it by simp
  moreover have "wire s1 = wire s @ [Line (make_item j (env j))]"
    using iteration_wire [of s j ms "env j"] p it by simp
  ultimately show "running s1 \<and> line_seqs (wire s1) = [1..<Suc (Suc j)] \<and> Suc j \<le> count"
    using p lt by (simp add: line_seqs_append make_item_def)
next
  fix j s x s1
  assume lt: "j < count" and p: "running s \<and> line_seqs (wire s) = [1..<Suc j] \<and> j \<le> count"
    and it: "iteration j ms (env j) s = (Exit x, s1)"
  have "running s1"
    using iteration_running [of s j ms "env j"] p it by simp
  moreover have "wire s1 = wire s"
    using iteration_wire [of s j ms "env j"] p it by simp
  ultimately show "running s1 \<and> (\<exists>k. k \<le> count \<and> line_seqs (wire s1) = [1..<Suc k])"
    using p by auto
next
  fix j s
  assume "\<not> j < count" and "running s \<and> line_seqs (wire s) = [1..<Suc j] \<and> j \<le> count"
  then show "running s \<and> (\<exists>k. k \<le> count \<and> line_seqs (wire s) = [1..<Suc k])"
    by auto
qed

subsection \<open>C1: the sequence numbers on the wire\<close>

text \<open>
  Claim C1. In every session of \<^verbatim>\<open>/stream\<close>, however it ends (the generator is exhausted,
  the signal is aborted, or an exception is caught), the sequence numbers of the records
  written are \<open>1, 2, \<dots>, k\<close> for some \<open>k\<close> up to the number of items asked for: they
  start at 1, have no gap and no repetition, increase strictly, and so does every prefix of
  them.
\<close>

theorem written_sequence_gapless:
  "line_seqs (wire (stream_session count ms env)) =
     [1..<Suc (length (line_seqs (wire (stream_session count ms env))))] \<and>
   length (line_seqs (wire (stream_session count ms env))) \<le> count \<and>
   take j (line_seqs (wire (stream_session count ms env))) =
     [1..<Suc (min j (length (line_seqs (wire (stream_session count ms env)))))] \<and>
   sorted_wrt (<) (line_seqs (wire (stream_session count ms env))) \<and>
   distinct (line_seqs (wire (stream_session count ms env)))"
proof -
  obtain x s where r: "stream_run count ms env = (x, s)"
    by (cases "stream_run count ms env")
  have "line_seqs (wire (open_stream new_session)) = [1..<Suc 0]"
    by (simp add: open_stream_def new_session_def setHeader_def)
  from loop_line_seqs [OF running_open this, of count ms env]
  obtain k where k: "k \<le> count" "line_seqs (wire s) = [1..<Suc k]"
    using r by (auto simp: stream_run_def)
  have w: "line_seqs (wire (stream_session count ms env)) = [1..<Suc k]"
    using r k finish_line_seqs [of x s] by (simp add: stream_session_def)
  have t: "take j [1..<Suc k] = [1..<Suc (min j k)]"
  proof (cases "j \<le> k")
    case True
    then have "take j [1..<Suc k] = [1..<1 + j]"
      by (intro take_upt) simp
    then show ?thesis using True by (simp add: min_def del: upt_Suc)
  next
    case False
    then show ?thesis by (simp add: min_def del: upt_Suc)
  qed
  show ?thesis
    unfolding w using k(1) t by (simp del: upt_Suc)
qed


subsection \<open>C6: endStream\<close>

lemma endStream_twice: "endStream (endStream s) = endStream s"
  by (simp add: endStream_def res_end_def flush_headers_def Let_def)

lemma endStream_funpow: "(endStream ^^ Suc n) s = endStream s"
  by (induction n) (simp_all add: endStream_twice)

text \<open>
  Claim C6. \<^verbatim>\<open>endStream\<close> is idempotent: any number of calls after the first leaves the
  session as the first call left it. The first call makes one call of \<^verbatim>\<open>res.end()\<close>, with
  no chunk, and sets the flag; the body already on the wire is not changed by any of them.
\<close>

theorem endStream_idempotent:
  "(endStream ^^ Suc n) s = endStream s \<and>
   endStream (endStream s) = endStream s \<and>
   ended (endStream s) \<and>
   calls ((endStream ^^ Suc n) s) = calls s @ (if ended s then [] else [CEnd None]) \<and>
   wire ((endStream ^^ Suc n) s) = wire s \<and>
   writableEnded ((endStream ^^ Suc n) s) = (if ended s then writableEnded s else True)"
proof -
  have "calls (endStream s) = calls s @ (if ended s then [] else [CEnd None])"
    by (simp add: endStream_def res_end_def flush_headers_def Let_def)
  moreover have "wire (endStream s) = wire s"
    by (simp add: endStream_def res_end_def flush_headers_def Let_def)
  moreover have "writableEnded (endStream s) = (if ended s then writableEnded s else True)"
    by (simp add: endStream_def res_end_def flush_headers_def Let_def)
  moreover have "ended (endStream s)"
    by (simp add: endStream_def res_end_def flush_headers_def Let_def)
  ultimately show ?thesis
    by (simp only: endStream_funpow endStream_twice simp_thms)
qed

subsection \<open>C10: delay is never called on an aborted signal\<close>

lemma loop_running: "running s \<Longrightarrow> running (snd (stream_loop i count ms env s))"
proof (rule stream_loop_rule [where P = "\<lambda>j s. running s" and Q = "\<lambda>x s. running s"])
  fix j s s1
  assume "running s" and "iteration j ms (env j) s = (Continue, s1)"
  then show "running s1"
    using iteration_running [of s j ms "env j"] by simp
next
  fix j s x s1
  assume "running s" and "iteration j ms (env j) s = (Exit x, s1)"
  then show "running s1"
    using iteration_running [of s j ms "env j"] by simp
qed

lemma finish_delay_calls: "delay_calls (finish (x, s)) = delay_calls s"
  by (cases x)
    (simp_all add: finish_def endStream_def res_end_def flush_headers_def on_catch_def
      req_log_def setHeader_def Let_def)

text \<open>
  Claim C10. In every session, each call of \<^verbatim>\<open>delay\<close> by the generator finds the signal
  not aborted: the generator has just checked it, with no suspension in between. The branch
  of line 161 is the one that \<^verbatim>\<open>delay\<close> takes exactly when the signal is aborted at the call;
  its error is named \<^verbatim>\<open>Error\<close>, not \<^verbatim>\<open>AbortError\<close>, so the handler's catch block would
  log it as a streaming error, a failure rather than a cancellation. The streaming loop never
  reaches it.
\<close>

theorem delay_never_called_aborted:
  "True \<notin> set (delay_calls (stream_session count ms env)) \<and>
   (fst (delay ms t s) = Inl aborted_error) = aborted s \<and>
   delay_calls (snd (delay ms t s)) = delay_calls s @ [aborted s] \<and>
   err_name aborted_error \<noteq> ''AbortError'' \<and>
   outcome_of (Caught aborted_error) = FAILED \<and>
   logged (on_catch aborted_error s) = logged s @ [StreamingError aborted_error]"
proof -
  obtain x s1 where r: "stream_run count ms env = (x, s1)"
    by (cases "stream_run count ms env")
  have "running s1"
    using loop_running [OF running_open, of 0 count ms env] r by (simp add: stream_run_def)
  then have a: "True \<notin> set (delay_calls (stream_session count ms env))"
    using r finish_delay_calls [of x s1] by (simp add: stream_session_def running_def)
  have b: "(fst (delay ms t s) = Inl aborted_error) = aborted s"
    by (simp add: delay_def addEventListener_def Let_def aborted_error_def abort_error_def)
  have c: "delay_calls (snd (delay ms t s)) = delay_calls s @ [aborted s]"
    by (simp add: delay_def addEventListener_def Let_def stream_defs)
  have d: "logged (on_catch aborted_error s) = logged s @ [StreamingError aborted_error]"
    by (simp add: on_catch_def aborted_error_def req_log_def setHeader_def res_end_def
        flush_headers_def Let_def)
  show ?thesis
    using a b c d by (simp add: aborted_error_def outcome_of_def)
qed

theorem delay_never_called_aborted_witness:
  "delay_calls (stream_session 3 0 (\<lambda>i. calm_tick)) = [False, False, False]"
proof -
  have "delay_calls (stream_session 3 0 (\<lambda>i. calm_tick)) = [False, False, False]"
    by code_simp
  then show ?thesis
    using delay_never_called_aborted [of 3 0 "\<lambda>i. calm_tick"] by simp
qed


subsection \<open>C7: the cancellation signal\<close>

lemma iteration_aborted_after:
  "aborted s \<Longrightarrow> aborted (snd (iteration i ms t s))"
  by (simp add: iteration_aborted)















subsection \<open>C2: the signal aborts while delay waits\<close>

lemma state_at_Suc:
  "state_at ms env s0 (Suc i) = Some s1 \<Longrightarrow>
   \<exists>s. state_at ms env s0 i = Some s \<and> iteration i ms (env i) s = (Continue, s1)"
  by (auto split: option.splits prod.splits iter_result.splits)

lemma state_at_running:
  "state_at ms env (open_stream new_session) i = Some s \<Longrightarrow> running s"
proof (induction i arbitrary: s)
  case 0
  then show ?case using running_open by simp
next
  case (Suc i)
  from state_at_Suc [OF Suc.prems] obtain s' where
    "state_at ms env (open_stream new_session) i = Some s'"
    "iteration i ms (env i) s' = (Continue, s)"
    by blast
  then show ?case
    using Suc.IH [of s'] iteration_running [of s' i ms "env i"] by simp
qed

lemma state_at_line_seqs:
  "state_at ms env (open_stream new_session) i = Some s \<Longrightarrow> line_seqs (wire s) = [1..<Suc i]"
proof (induction i arbitrary: s)
  case 0
  then have "s = open_stream new_session" by simp
  then show ?case by (simp add: open_stream_def new_session_def setHeader_def)
next
  case (Suc i)
  from state_at_Suc [OF Suc.prems] obtain s' where
    a: "state_at ms env (open_stream new_session) i = Some s'"
    and b: "iteration i ms (env i) s' = (Continue, s)"
    by blast
  have "wire s = wire s' @ [Line (make_item i (env i))]"
    using iteration_wire [of s' i ms "env i"] b state_at_running [OF a]
    by simp
  then show ?case
    using Suc.IH [OF a] by (simp add: line_seqs_append make_item_def)
qed

lemma iteration_Continue_logged:
  assumes "iteration i ms t s = (Continue, s1)" and "running s"
    and "logged s = (if aborted s then [ClientDisconnected] else [])"
  shows "logged s1 = (if aborted s1 then [ClientDisconnected] else [])"
proof -
  note d = iteration_ContinueD [OF assms(1,2)]
  have l0: "abort_listeners s = 0"
    using assms(2) by (simp add: running_def)
  from d(5) show ?thesis
  proof
    assume "write_res t = Accepted"
    from iteration_accepted [OF d(1-4) this, of i ms] assms d(1)
    show ?thesis by (auto simp: res_write_def flush_headers_def Let_def)
  next
    assume "write_res t = Saturated"
    from iteration_saturated [OF d(1-4) this, of i ms] assms d(1) l0
    show ?thesis
      by (auto simp: res_write_def flush_headers_def await_capacity_def deliver_def
          req_close_event_idle Let_def)
  qed
qed

lemma state_at_logged:
  "state_at ms env (open_stream new_session) i = Some s \<Longrightarrow>
   logged s = (if aborted s then [ClientDisconnected] else [])"
proof (induction i arbitrary: s)
  case 0
  then have "s = open_stream new_session" by simp
  then show ?case by (simp add: open_stream_def new_session_def setHeader_def)
next
  case (Suc i)
  from state_at_Suc [OF Suc.prems] obtain s' where
    a: "state_at ms env (open_stream new_session) i = Some s'"
    and b: "iteration i ms (env i) s' = (Continue, s)"
    by blast
  show ?case
    using iteration_Continue_logged [OF b state_at_running [OF a] Suc.IH [OF a]] .
qed

lemma iteration_abort_in_delay:
  assumes "\<not> aborted s" and "req_close t = Some DuringDelay"
  shows "fst (iteration i ms t s) = Exit (Caught abort_error)"
    and "wire (snd (iteration i ms t s)) = wire s"
    and "calls (snd (iteration i ms t s)) = calls s"
    and "logged (snd (iteration i ms t s)) = logged s @ [ClientDisconnected]"
    and "on_abort_fired (snd (iteration i ms t s)) = Suc (on_abort_fired s)"
    and "aborted (snd (iteration i ms t s))"
  using assms by (simp_all add: iteration_close_delay delay_abort)

lemma on_catch_abort:
  assumes "running s"
  shows "wire (on_catch abort_error s) = wire s"
    and "calls (on_catch abort_error s) = calls s @ [CEnd None]"
    and "logged (on_catch abort_error s) = logged s @ [StreamingStopped]"
    and "wire_status (on_catch abort_error s) = Some 200"
    and "writableEnded (on_catch abort_error s)"
    and "on_abort_fired (on_catch abort_error s) = on_abort_fired s"
    and "timers (on_catch abort_error s) = 0"
    and "abort_listeners (on_catch abort_error s) = 0"
  using assms
  by (simp_all add: running_def on_catch_def abort_error_def endStream_def res_end_def
      flush_headers_def req_log_def Let_def)

text \<open>
  Claim C2. Let the loop reach iteration \<open>i\<close> with the signal not aborted, and let the
  request's \<^verbatim>\<open>close\<close> arrive while \<^verbatim>\<open>delay\<close> waits. Then the wait ends at once with the
  \<^verbatim>\<open>AbortError\<close> of \<^verbatim>\<open>onAbort\<close> (the callback fires, the timer is cleared), no further record
  is produced or written (the wire holds the \<open>i\<close> records it held, numbered \<open>1..i\<close>), and
  the session ends as a cancellation: one \<^verbatim>\<open>res.end()\<close> without chunk, status 200, and a log
  that holds the two cancellation messages and no streaming error.
\<close>

theorem abort_during_delay_is_silent:
  assumes "state_at ms env (open_stream new_session) i = Some s"
    and "i < count" and "\<not> aborted s" and "req_close (env i) = Some DuringDelay"
  shows "fst (stream_run count ms env) = Caught abort_error \<and>
         outcome_of (fst (stream_run count ms env)) = CANCELLED \<and>
         wire (stream_session count ms env) = wire s \<and>
         line_seqs (wire (stream_session count ms env)) = [1..<Suc i] \<and>
         calls (stream_session count ms env) = calls s @ [CEnd None] \<and>
         logged (stream_session count ms env) = [ClientDisconnected, StreamingStopped] \<and>
         wire_status (stream_session count ms env) = Some 200 \<and>
         writableEnded (stream_session count ms env) \<and>
         on_abort_fired (stream_session count ms env) = Suc (on_abort_fired s) \<and>
         timers (stream_session count ms env) = 0 \<and>
         abort_listeners (stream_session count ms env) = 0"
proof -
  obtain r s1 where it: "iteration i ms (env i) s = (r, s1)"
    by (cases "iteration i ms (env i) s")
  have rs: "running s"
    using state_at_running [OF assms(1)] .
  have r: "r = Exit (Caught abort_error)"
    using iteration_abort_in_delay(1) [OF assms(3,4), of i ms] it by simp
  have s1: "wire s1 = wire s" "calls s1 = calls s" "logged s1 = logged s @ [ClientDisconnected]"
    "on_abort_fired s1 = Suc (on_abort_fired s)"
    using iteration_abort_in_delay(2-5) [OF assms(3,4), of i ms] it by simp_all
  have rs1: "running s1"
    using iteration_running [OF rs, of i ms "env i"] it by simp
  have "stream_run count ms env = stream_loop i count ms env s"
    unfolding stream_run_def using state_at_loop [OF assms(1), of count] assms(2) by simp
  then have run: "stream_run count ms env = (Caught abort_error, s1)"
    using stream_loop_Exit [OF assms(2), of ms env s "Caught abort_error" s1] it r by simp
  then have fin: "stream_session count ms env = on_catch abort_error s1"
    by (simp add: stream_session_def finish_def)
  have l: "logged s = []"
    using state_at_logged [OF assms(1)] assms(3) by simp
  show ?thesis
    unfolding fin run
    using on_catch_abort [OF rs1] s1 l state_at_line_seqs [OF assms(1)]
    by (simp add: outcome_of_def abort_error_def)
qed

theorem abort_during_delay_is_silent_witness:
  "state_at 0 (close_in_delay_at 2) (open_stream new_session) 2 \<noteq> None \<and>
   \<not> aborted (the (state_at 0 (close_in_delay_at 2) (open_stream new_session) 2)) \<and>
   req_close (close_in_delay_at 2 2) = Some DuringDelay \<and>
   fst (stream_run 5 0 (close_in_delay_at 2)) = Caught abort_error \<and>
   line_seqs (wire (stream_session 5 0 (close_in_delay_at 2))) = [1..<Suc 2] \<and>
   logged (stream_session 5 0 (close_in_delay_at 2)) = [ClientDisconnected, StreamingStopped]"
proof -
  have n: "state_at 0 (close_in_delay_at 2) (open_stream new_session) 2 \<noteq> None"
    by code_simp
  then have s: "state_at 0 (close_in_delay_at 2) (open_stream new_session) 2 =
      Some (the (state_at 0 (close_in_delay_at 2) (open_stream new_session) 2))"
    by (rule option.collapse [symmetric])
  have na: "\<not> aborted (the (state_at 0 (close_in_delay_at 2) (open_stream new_session) 2))"
    by code_simp
  have c: "req_close (close_in_delay_at 2 2) = Some DuringDelay"
    by (simp add: close_in_delay_at_def)
  have lt: "(2::nat) < 5" by simp
  from abort_during_delay_is_silent [OF s lt na c]
  show ?thesis using n na c by blast
qed


subsection \<open>C5: the wait for capacity is abandoned\<close>

lemma endStream_running:
  assumes "running s"
  shows "calls (endStream s) = calls s @ [CEnd None]"
    and "wire (endStream s) = wire s"
    and "logged (endStream s) = logged s"
    and "wire_status (endStream s) = Some 200"
    and "writableEnded (endStream s)"
    and "aborted (endStream s) = aborted s"
  using assms
  by (simp_all add: running_def endStream_def res_end_def flush_headers_def Let_def)

lemma loop_stops:
  assumes "running s"
    and "aborted s \<or> req_close (env j) = Some BeforeCheck \<or> \<not> j < count"
  shows "fst (stream_loop j count ms env s) = SourceBreak \<or>
         fst (stream_loop j count ms env s) = Exhausted"
    and "calls (snd (stream_loop j count ms env s)) = calls s"
    and "wire (snd (stream_loop j count ms env s)) = wire s"
    and "running (snd (stream_loop j count ms env s))"
    and "set (logged (snd (stream_loop j count ms env s))) \<subseteq> set (logged s) \<union> {ClientDisconnected}"
proof -
  have "(fst (stream_loop j count ms env s) = SourceBreak \<or>
         fst (stream_loop j count ms env s) = Exhausted) \<and>
        calls (snd (stream_loop j count ms env s)) = calls s \<and>
        wire (snd (stream_loop j count ms env s)) = wire s \<and>
        set (logged (snd (stream_loop j count ms env s))) \<subseteq> set (logged s) \<union> {ClientDisconnected}"
  proof (cases "j < count")
    case False
    then show ?thesis by (auto simp: stream_loop_Exhausted)
  next
    case True
    obtain r s1 where it: "iteration j ms (env j) s = (r, s1)"
      by (cases "iteration j ms (env j) s")
    have "r = Exit SourceBreak \<and> calls s1 = calls s \<and> wire s1 = wire s \<and>
          set (logged s1) \<subseteq> set (logged s) \<union> {ClientDisconnected}"
    proof (cases "aborted s")
      case True
      then show ?thesis using it by (auto simp: iteration_aborted)
    next
      case False
      moreover from False have "req_close (env j) = Some BeforeCheck"
        using assms(2) \<open>j < count\<close> by simp
      moreover have "abort_listeners s = 0"
        using assms(1) by (simp add: running_def)
      ultimately show ?thesis
        using iteration_close_before [of s "env j" j ms] it by auto
    qed
    then show ?thesis
      using stream_loop_Exit [OF True, of ms env s SourceBreak s1] it by simp
  qed
  then show "fst (stream_loop j count ms env s) = SourceBreak \<or>
         fst (stream_loop j count ms env s) = Exhausted"
    and "calls (snd (stream_loop j count ms env s)) = calls s"
    and "wire (snd (stream_loop j count ms env s)) = wire s"
    and "set (logged (snd (stream_loop j count ms env s))) \<subseteq> set (logged s) \<union> {ClientDisconnected}"
    by simp_all
  show "running (snd (stream_loop j count ms env s))"
    using loop_running [OF assms(1)] .
qed

text \<open>
  Claim C5. Let the loop reach iteration \<open>i\<close> with the signal not aborted, let the write of
  its record report saturation, and let the connection close while the handler waits for
  capacity: the response's \<^verbatim>\<open>close\<close> event resolves the wait, and the request's
  \<^verbatim>\<open>close\<close> event arrives during the wait or right after it, before the generator's next
  check. Then the calls on the transport are those made before, this write, the wait, and one
  \<^verbatim>\<open>res.end()\<close>: \<^verbatim>\<open>endStream\<close> ends the response once and no write follows the
  resolution. No streaming error is logged.
\<close>

theorem abandoned_wait_terminates_once:
  assumes "state_at ms env (open_stream new_session) i = Some s"
    and "i < count" and "\<not> aborted s"
    and "construct_fault (env i) = None" and "stringify_fault (env i) = None"
    and "write_res (env i) = Saturated" and "wait_ev (env i) = ResClose"
    and "req_close (env i) = Some DuringWait \<or>
         (req_close (env i) = None \<and> req_close (env (Suc i)) = Some BeforeCheck)"
  shows "calls (stream_session count ms env) =
           calls s @ [CWrite (Suc i) Saturated, CAwait ResClose, CEnd None] \<and>
         filter is_end (calls (stream_session count ms env)) = [CEnd None] \<and>
         filter is_write (calls (stream_session count ms env)) =
           filter is_write (calls s) @ [CWrite (Suc i) Saturated] \<and>
         wire (stream_session count ms env) = wire s @ [Line (make_item i (env i))] \<and>
         line_seqs (wire (stream_session count ms env)) = [1..<Suc (Suc i)] \<and>
         writableEnded (stream_session count ms env) \<and>
         set (logged (stream_session count ms env)) \<subseteq> {ClientDisconnected} \<and>
         (fst (stream_run count ms env) = SourceBreak \<or>
          fst (stream_run count ms env) = Exhausted)"
proof -
  have rs: "running s"
    using state_at_running [OF assms(1)] .
  have rc: "req_close (env i) = None \<or> req_close (env i) = Some DuringWait"
    using assms(8) by auto
  define s1 where "s1 = snd (iteration i ms (env i) s)"
  have it: "iteration i ms (env i) s = (Continue, s1)"
    unfolding s1_def using iteration_saturated [OF assms(3) rc assms(4,5,6), of i ms] by simp
  have r: "Continue = Continue" ..
  have rs1: "running s1"
    using iteration_running [OF rs, of i ms "env i"] it by simp
  have l0: "abort_listeners s = 0"
    using rs by (simp add: running_def)
  have c1: "calls s1 = calls s @ [CWrite (Suc i) Saturated, CAwait ResClose]"
    and l1: "logged s1 = logged s @ (if req_close (env i) = Some DuringWait then [ClientDisconnected] else [])"
    and a1: "aborted s1 = (req_close (env i) = Some DuringWait)"
    unfolding s1_def
    using iteration_saturated [OF assms(3) rc assms(4,5,6), of i ms] assms(3,7) l0
    by (simp_all add: res_write_def flush_headers_def await_capacity_def deliver_def
        req_close_event_idle make_item_def Let_def)
  have w1: "wire s1 = wire s @ [Line (make_item i (env i))]"
    using iteration_wire [OF rs, of i ms "env i"] it by simp
  have stop: "aborted s1 \<or> req_close (env (Suc i)) = Some BeforeCheck \<or> \<not> Suc i < count"
    using a1 assms(8) by auto
  obtain x s2 where l2: "stream_loop (Suc i) count ms env s1 = (x, s2)"
    by (cases "stream_loop (Suc i) count ms env s1")
  have x: "x = SourceBreak \<or> x = Exhausted" and c2: "calls s2 = calls s1"
    and w2: "wire s2 = wire s1" and rs2: "running s2"
    and lg2: "set (logged s2) \<subseteq> set (logged s1) \<union> {ClientDisconnected}"
    using loop_stops [where s = s1 and env = env and j = "Suc i" and count = count
        and ms = ms, OF rs1 stop] l2 by simp_all
  have "stream_run count ms env = stream_loop i count ms env s"
    unfolding stream_run_def using state_at_loop [OF assms(1), of count] assms(2) by simp
  then have run: "stream_run count ms env = (x, s2)"
    using stream_loop_Continue [OF assms(2), of ms env s s1] it l2 by simp
  have fin: "stream_session count ms env = endStream s2"
    using run x by (auto simp: stream_session_def finish_def)
  have l: "logged s = []"
    using state_at_logged [OF assms(1)] assms(3) by simp
  have e: "filter is_end (calls s) = []"
    using rs by (simp add: running_def)
  show ?thesis
    unfolding fin run
    using endStream_running [OF rs2] x c1 c2 w1 w2 l l1 lg2 e state_at_line_seqs [OF assms(1)]
    by (auto simp: line_seqs_append make_item_def)
qed


theorem abandoned_wait_terminates_once_witness:
  "state_at 0 (abandoned_at 1) (open_stream new_session) 1 \<noteq> None \<and>
   \<not> aborted (the (state_at 0 (abandoned_at 1) (open_stream new_session) 1)) \<and>
   write_res (abandoned_at 1 1) = Saturated \<and> wait_ev (abandoned_at 1 1) = ResClose \<and>
   req_close (abandoned_at 1 1) = Some DuringWait \<and>
   calls (stream_session 5 0 (abandoned_at 1)) =
     [CWrite 1 Accepted, CWrite 2 Saturated, CAwait ResClose, CEnd None]"
proof -
  let ?s = "the (state_at 0 (abandoned_at 1) (open_stream new_session) 1)"
  have n: "state_at 0 (abandoned_at 1) (open_stream new_session) 1 \<noteq> None"
    by code_simp
  then have s: "state_at 0 (abandoned_at 1) (open_stream new_session) 1 = Some ?s"
    by (rule option.collapse [symmetric])
  have na: "\<not> aborted ?s"
    by code_simp
  have cs: "calls ?s = [CWrite 1 Accepted]"
    by code_simp
  have t: "construct_fault (abandoned_at 1 1) = None" "stringify_fault (abandoned_at 1 1) = None"
    "write_res (abandoned_at 1 1) = Saturated" "wait_ev (abandoned_at 1 1) = ResClose"
    "req_close (abandoned_at 1 1) = Some DuringWait"
    by (simp_all add: abandoned_at_def calm_tick_def)
  have lt: "(1::nat) < 5" by simp
  from abandoned_wait_terminates_once [OF s lt na t(1-4) disjI1 [OF t(5)]]
  have "calls (stream_session 5 0 (abandoned_at 1)) =
      calls ?s @ [CWrite (Suc 1) Saturated, CAwait ResClose, CEnd None]"
    by blast
  then show ?thesis
    using n na t cs by simp
qed


subsection \<open>C9 and C3: an exception other than AbortError is caught\<close>

lemma on_catch_fault:
  assumes "running s" and "err_name e \<noteq> ''AbortError''"
  shows "wire (on_catch e s) = wire s @ [Doc (streaming_problem e)]"
    and "calls (on_catch e s) = calls s @ [CEnd (Some (Doc (streaming_problem e)))]"
    and "logged (on_catch e s) = logged s @ [StreamingError e]"
    and "writableEnded (on_catch e s)"
    and "wire_status (on_catch e s) = Some (if headersSent s then 200 else 500)"
    and "wire_headers (on_catch e s) ''Content-Type'' =
           Some (if headersSent s then ''application/x-ndjson; charset=utf-8''
                 else ''application/problem+json'')"
  using assms
  by (simp_all add: running_def on_catch_def res_end_def flush_headers_def req_log_def
      setHeader_def open_stream_def new_session_def Let_def)

lemma streaming_problem_fields:
  "p_status (streaming_problem e) = 500"
  "p_title (streaming_problem e) = Some ''Streaming error''"
  "p_type (streaming_problem e) = ''about:blank''"
  "p_detail (streaming_problem e) =
     Some (if err_message e = [] then ''stream error'' else err_message e)"
  "p_instance (streaming_problem e) = None"
  by (simp_all add: streaming_problem_def buildProblem_def truthy_def Let_def)

text \<open>
  Claim C9. When the loop is left by an exception that is not an \<^verbatim>\<open>AbortError\<close> and no bytes
  have been sent (\<^verbatim>\<open>res.headersSent\<close> is false), the response is the problem document alone:
  status 500, content type \<^verbatim>\<open>application/problem+json\<close>, a body of one chunk, the document
  of \<^verbatim>\<open>buildProblem\<close> with status 500 and title \<^verbatim>\<open>Streaming error\<close>, and no record line.
\<close>

theorem fault_before_first_byte:
  assumes "stream_run count ms env = (Caught e, s)"
    and "err_name e \<noteq> ''AbortError''" and "\<not> headersSent s"
  shows "wire (stream_session count ms env) = [Doc (streaming_problem e)] \<and>
         line_seqs (wire (stream_session count ms env)) = [] \<and>
         wire_status (stream_session count ms env) = Some 500 \<and>
         wire_headers (stream_session count ms env) ''Content-Type'' =
           Some ''application/problem+json'' \<and>
         p_status (streaming_problem e) = 500 \<and>
         p_title (streaming_problem e) = Some ''Streaming error'' \<and>
         p_type (streaming_problem e) = ''about:blank'' \<and>
         p_detail (streaming_problem e) =
           Some (if err_message e = [] then ''stream error'' else err_message e) \<and>
         calls (stream_session count ms env) =
           calls s @ [CEnd (Some (Doc (streaming_problem e)))] \<and>
         filter is_end (calls (stream_session count ms env)) =
           [CEnd (Some (Doc (streaming_problem e)))] \<and>
         logged (stream_session count ms env) = logged s @ [StreamingError e] \<and>
         writableEnded (stream_session count ms env) \<and>
         outcome_of (fst (stream_run count ms env)) = FAILED"
proof -
  have rs: "running s"
    using loop_running [OF running_open, of 0 count ms env] assms(1)
    by (simp add: stream_run_def)
  have w: "wire s = []" and e: "filter is_end (calls s) = []"
    using rs assms(3) by (simp_all add: running_def)
  have fin: "stream_session count ms env = on_catch e s"
    using assms(1) by (simp add: stream_session_def finish_def)
  show ?thesis
    unfolding fin assms(1)
    using on_catch_fault [OF rs assms(2)] w e assms(2,3) streaming_problem_fields [of e]
    by (simp add: outcome_of_def)
qed

theorem fault_before_first_byte_witness:
  "fst (stream_run 3 0 (fault_at 0)) = Caught boom \<and>
   err_name boom \<noteq> ''AbortError'' \<and>
   \<not> headersSent (snd (stream_run 3 0 (fault_at 0))) \<and>
   wire (stream_session 3 0 (fault_at 0)) = [Doc (streaming_problem boom)] \<and>
   wire_status (stream_session 3 0 (fault_at 0)) = Some 500"
proof -
  have f: "fst (stream_run 3 0 (fault_at 0)) = Caught boom"
    by code_simp
  then have r: "stream_run 3 0 (fault_at 0) = (Caught boom, snd (stream_run 3 0 (fault_at 0)))"
    by (metis prod.collapse)
  have n: "err_name boom \<noteq> ''AbortError''"
    by (simp add: boom_def)
  have h: "\<not> headersSent (snd (stream_run 3 0 (fault_at 0)))"
    by code_simp
  from fault_before_first_byte [OF r n h]
  show ?thesis using f n h by blast
qed

text \<open>
  Claim C3 as stated fails. With three items asked for and \<^verbatim>\<open>JSON.stringify\<close> raising on the
  second, the catch block finds \<^verbatim>\<open>res.writableEnded\<close> false and calls
  \<^verbatim>\<open>res.end(JSON.stringify(p))\<close>: the body on the wire is the first record followed by the
  problem document, not the body as it stood when the fault occurred.
\<close>

theorem fault_after_first_byte_counterexample:
  "fst (stream_run 3 0 (fault_at 1)) = Caught boom \<and>
   err_name boom \<noteq> ''AbortError'' \<and>
   line_seqs (wire (snd (stream_run 3 0 (fault_at 1)))) = [1] \<and>
   wire (stream_session 3 0 (fault_at 1)) =
     wire (snd (stream_run 3 0 (fault_at 1))) @
       [Doc \<lparr>p_type = ''about:blank'', p_title = Some ''Streaming error'', p_status = 500,
             p_detail = Some ''boom'', p_instance = None\<rparr>] \<and>
   wire (stream_session 3 0 (fault_at 1)) \<noteq> wire (snd (stream_run 3 0 (fault_at 1)))"
  by code_simp

text \<open>
  Claim C3, amended. When the loop is left by an exception that is not an \<^verbatim>\<open>AbortError\<close>
  after bytes have been sent, the fault is logged and the response is ended by one call of
  \<^verbatim>\<open>res.end\<close>. The status line and the headers stay as they were sent (200, NDJSON) and the
  records already written stay as they are; the call of \<^verbatim>\<open>res.end\<close> carries the problem
  document, which follows the records as the last chunk of the body.
\<close>

theorem fault_after_first_byte:
  assumes "stream_run count ms env = (Caught e, s)"
    and "err_name e \<noteq> ''AbortError''" and "headersSent s"
  shows "wire (stream_session count ms env) = wire s @ [Doc (streaming_problem e)] \<and>
         line_seqs (wire (stream_session count ms env)) = line_seqs (wire s) \<and>
         wire_status (stream_session count ms env) = Some 200 \<and>
         wire_headers (stream_session count ms env) ''Content-Type'' =
           Some ''application/x-ndjson; charset=utf-8'' \<and>
         p_status (streaming_problem e) = 500 \<and>
         calls (stream_session count ms env) =
           calls s @ [CEnd (Some (Doc (streaming_problem e)))] \<and>
         filter is_end (calls (stream_session count ms env)) =
           [CEnd (Some (Doc (streaming_problem e)))] \<and>
         logged (stream_session count ms env) = logged s @ [StreamingError e] \<and>
         writableEnded (stream_session count ms env) \<and>
         outcome_of (fst (stream_run count ms env)) = FAILED"
proof -
  have rs: "running s"
    using loop_running [OF running_open, of 0 count ms env] assms(1)
    by (simp add: stream_run_def)
  have e: "filter is_end (calls s) = []"
    using rs by (simp add: running_def)
  have fin: "stream_session count ms env = on_catch e s"
    using assms(1) by (simp add: stream_session_def finish_def)
  show ?thesis
    unfolding fin assms(1)
    using on_catch_fault [OF rs assms(2)] e assms(2,3) streaming_problem_fields [of e]
    by (simp add: outcome_of_def line_seqs_append)
qed

theorem fault_after_first_byte_witness:
  "fst (stream_run 3 0 (fault_at 1)) = Caught boom \<and>
   err_name boom \<noteq> ''AbortError'' \<and>
   headersSent (snd (stream_run 3 0 (fault_at 1))) \<and>
   wire (stream_session 3 0 (fault_at 1)) =
     wire (snd (stream_run 3 0 (fault_at 1))) @ [Doc (streaming_problem boom)] \<and>
   wire_status (stream_session 3 0 (fault_at 1)) = Some 200"
proof -
  have f: "fst (stream_run 3 0 (fault_at 1)) = Caught boom"
    by code_simp
  then have r: "stream_run 3 0 (fault_at 1) = (Caught boom, snd (stream_run 3 0 (fault_at 1)))"
    by (metis prod.collapse)
  have n: "err_name boom \<noteq> ''AbortError''"
    by (simp add: boom_def)
  have h: "headersSent (snd (stream_run 3 0 (fault_at 1)))"
    by code_simp
  from fault_after_first_byte [OF r n h]
  show ?thesis using f n h by blast
qed


subsection \<open>C8: three items, no cancellation\<close>

lemma iteration_calm:
  assumes "running s" and "\<not> aborted s" and "req_close t = None"
    and "construct_fault t = None" and "stringify_fault t = None"
    and "\<forall>e. write_res t \<noteq> WriteRaised e"
  shows "fst (iteration i ms t s) = Continue"
    and "\<not> aborted (snd (iteration i ms t s))"
    and "logged (snd (iteration i ms t s)) = logged s"
proof -
  have rc: "req_close t = None \<or> req_close t = Some DuringWait"
    using assms(3) by simp
  have "fst (iteration i ms t s) = Continue \<and> \<not> aborted (snd (iteration i ms t s)) \<and>
        logged (snd (iteration i ms t s)) = logged s"
  proof (cases "write_res t")
    case Accepted
    from iteration_accepted [OF assms(2) rc assms(4,5) this, of i ms] assms(2)
    show ?thesis by (simp add: res_write_def flush_headers_def Let_def)
  next
    case Saturated
    from iteration_saturated [OF assms(2) rc assms(4,5) this, of i ms] assms(2,3)
    show ?thesis
      by (simp add: res_write_def flush_headers_def await_capacity_def deliver_def Let_def)
  next
    case (WriteRaised e)
    then show ?thesis using assms(6) by simp
  qed
  then show "fst (iteration i ms t s) = Continue"
    and "\<not> aborted (snd (iteration i ms t s))"
    and "logged (snd (iteration i ms t s)) = logged s"
    by simp_all
qed

lemma calm_loop:
  assumes "running s" and "\<not> aborted s" and "i \<le> count"
    and calm: "\<And>j. j < count \<Longrightarrow>
      req_close (env j) = None \<and> construct_fault (env j) = None \<and>
      stringify_fault (env j) = None \<and> (\<forall>e. write_res (env j) \<noteq> WriteRaised e)"
  shows "fst (stream_loop i count ms env s) = Exhausted \<and>
         running (snd (stream_loop i count ms env s)) \<and>
         \<not> aborted (snd (stream_loop i count ms env s)) \<and>
         logged (snd (stream_loop i count ms env s)) = logged s \<and>
         wire (snd (stream_loop i count ms env s)) =
           wire s @ map (\<lambda>j. Line (make_item j (env j))) [i..<count]"
proof (rule stream_loop_rule [where
      P = "\<lambda>j s'. i \<le> j \<and> j \<le> count \<and> running s' \<and> \<not> aborted s' \<and> logged s' = logged s \<and>
        wire s' = wire s @ map (\<lambda>j. Line (make_item j (env j))) [i..<j]" and
      Q = "\<lambda>x s'. x = Exhausted \<and> running s' \<and> \<not> aborted s' \<and> logged s' = logged s \<and>
        wire s' = wire s @ map (\<lambda>j. Line (make_item j (env j))) [i..<count]"])
  show "i \<le> i \<and> i \<le> count \<and> running s \<and> \<not> aborted s \<and> logged s = logged s \<and>
      wire s = wire s @ map (\<lambda>j. Line (make_item j (env j))) [i..<i]"
    using assms(1-3) by simp
next
  fix j s' s1
  assume lt: "j < count"
    and p: "i \<le> j \<and> j \<le> count \<and> running s' \<and> \<not> aborted s' \<and> logged s' = logged s \<and>
      wire s' = wire s @ map (\<lambda>j. Line (make_item j (env j))) [i..<j]"
    and it: "iteration j ms (env j) s' = (Continue, s1)"
  have c: "req_close (env j) = None" "construct_fault (env j) = None"
    "stringify_fault (env j) = None" "\<forall>e. write_res (env j) \<noteq> WriteRaised e"
    using calm [OF lt] by simp_all
  have "running s'" "\<not> aborted s'" using p by simp_all
  note ic = iteration_calm [OF this c, of j ms]
  have "running s1"
    using iteration_running [of s' j ms "env j"] p it by simp
  moreover have "wire s1 = wire s' @ [Line (make_item j (env j))]"
    using iteration_wire [of s' j ms "env j"] p it by simp
  ultimately show "i \<le> Suc j \<and> Suc j \<le> count \<and> running s1 \<and> \<not> aborted s1 \<and>
      logged s1 = logged s \<and>
      wire s1 = wire s @ map (\<lambda>j. Line (make_item j (env j))) [i..<Suc j]"
    using p lt ic it by simp
next
  fix j s' x s1
  assume lt: "j < count"
    and p: "i \<le> j \<and> j \<le> count \<and> running s' \<and> \<not> aborted s' \<and> logged s' = logged s \<and>
      wire s' = wire s @ map (\<lambda>j. Line (make_item j (env j))) [i..<j]"
    and it: "iteration j ms (env j) s' = (Exit x, s1)"
  have c: "req_close (env j) = None" "construct_fault (env j) = None"
    "stringify_fault (env j) = None" "\<forall>e. write_res (env j) \<noteq> WriteRaised e"
    using calm [OF lt] by simp_all
  have "running s'" "\<not> aborted s'" using p by simp_all
  from iteration_calm(1) [OF this c, of j ms] it have False by simp
  then show "x = Exhausted \<and> running s1 \<and> \<not> aborted s1 \<and> logged s1 = logged s \<and>
      wire s1 = wire s @ map (\<lambda>j. Line (make_item j (env j))) [i..<count]" ..
next
  fix j s'
  assume "\<not> j < count"
    and "i \<le> j \<and> j \<le> count \<and> running s' \<and> \<not> aborted s' \<and> logged s' = logged s \<and>
      wire s' = wire s @ map (\<lambda>j. Line (make_item j (env j))) [i..<j]"
  then show "Exhausted = Exhausted \<and> running s' \<and> \<not> aborted s' \<and> logged s' = logged s \<and>
      wire s' = wire s @ map (\<lambda>j. Line (make_item j (env j))) [i..<count]"
    by (cases "j = count") simp_all
qed

text \<open>
  Claim C8. With three items asked for, an interval of 0, no \<^verbatim>\<open>close\<close> of the request and no
  exception while the three records are built, serialised and written, the body is exactly
  three lines, the records numbered 1, 2, 3 in this order; the generator is exhausted (the
  stream completes: it is neither cancelled nor failed) and the response is ended by one
  \<^verbatim>\<open>res.end()\<close>, the last call on the transport, with status 200 and nothing logged.
\<close>

theorem three_items_complete:
  assumes "\<forall>j<3. req_close (env j) = None \<and> construct_fault (env j) = None \<and>
             stringify_fault (env j) = None \<and> (\<forall>e. write_res (env j) \<noteq> WriteRaised e)"
  shows "wire (stream_session 3 0 env) =
           [Line (make_item 0 (env 0)), Line (make_item 1 (env 1)), Line (make_item 2 (env 2))] \<and>
         line_seqs (wire (stream_session 3 0 env)) = [1, 2, 3] \<and>
         fst (stream_run 3 0 env) = Exhausted \<and>
         outcome_of (fst (stream_run 3 0 env)) = COMPLETED \<and>
         filter is_end (calls (stream_session 3 0 env)) = [CEnd None] \<and>
         last (calls (stream_session 3 0 env)) = CEnd None \<and>
         writableEnded (stream_session 3 0 env) \<and>
         wire_status (stream_session 3 0 env) = Some 200 \<and>
         wire_headers (stream_session 3 0 env) ''Content-Type'' =
           Some ''application/x-ndjson; charset=utf-8'' \<and>
         \<not> aborted (stream_session 3 0 env) \<and>
         logged (stream_session 3 0 env) = []"
proof -
  obtain x s where r: "stream_run 3 0 env = (x, s)"
    by (cases "stream_run 3 0 env")
  have na: "\<not> aborted (open_stream new_session)" and w0: "wire (open_stream new_session) = []"
    and l0: "logged (open_stream new_session) = []"
    by (simp_all add: open_stream_def new_session_def setHeader_def)
  have u: "[0..<3] = [0, 1, 2::nat]"
    by code_simp
  have "x = Exhausted \<and> running s \<and> \<not> aborted s \<and> logged s = [] \<and>
      wire s = map (\<lambda>j. Line (make_item j (env j))) [0..<3]"
    using calm_loop [OF running_open na, of 0 3 env 0] assms r w0 l0
    by (simp add: stream_run_def)
  then have x: "x = Exhausted" and rs: "running s" and a: "\<not> aborted s" and l: "logged s = []"
    and w: "wire s = [Line (make_item 0 (env 0)), Line (make_item 1 (env 1)),
      Line (make_item 2 (env 2))]"
    unfolding u by simp_all
  have fin: "stream_session 3 0 env = endStream s"
    using r x by (simp add: stream_session_def finish_def)
  have e: "filter is_end (calls s) = []" and hs: "headersSent s"
    and wh: "wire_headers s = headers (open_stream new_session)"
    using rs w by (simp_all add: running_def)
  have ct: "wire_headers (endStream s) ''Content-Type'' = Some ''application/x-ndjson; charset=utf-8''"
    using rs hs wh
    by (simp add: running_def endStream_def res_end_def flush_headers_def Let_def
        open_stream_def setHeader_def new_session_def)
  show ?thesis
    unfolding fin r
    using endStream_running [OF rs] x a l w e ct
    by (simp add: outcome_of_def make_item_def)
qed

theorem three_items_complete_witness:
  "req_close calm_tick = None \<and> construct_fault calm_tick = None \<and>
   stringify_fault calm_tick = None \<and> write_res calm_tick = Accepted \<and>
   line_seqs (wire (stream_session 3 0 (\<lambda>i. calm_tick))) = [1, 2, 3] \<and>
   fst (stream_run 3 0 (\<lambda>i. calm_tick)) = Exhausted \<and>
   outcome_of (fst (stream_run 3 0 (\<lambda>i. calm_tick))) = COMPLETED \<and>
   last (calls (stream_session 3 0 (\<lambda>i. calm_tick))) = CEnd None"
proof -
  have c: "req_close calm_tick = None" "construct_fault calm_tick = None"
    "stringify_fault calm_tick = None" "write_res calm_tick = Accepted"
    by (simp_all add: calm_tick_def)
  then have h: "\<forall>j<3. req_close ((\<lambda>i. calm_tick) j) = None \<and>
      construct_fault ((\<lambda>i. calm_tick) j) = None \<and>
      stringify_fault ((\<lambda>i. calm_tick) j) = None \<and>
      (\<forall>e. write_res ((\<lambda>i. calm_tick) j) \<noteq> WriteRaised e)"
    by simp
  from three_items_complete [OF h] show ?thesis
    using c by blast
qed

subsection \<open>C4: a saturated write is followed by the wait\<close>













end
